theory Spec2Isabelle
  imports Main "HOL-Library.AList" "HOL-Library.Multiset" "HOL-Library.Char_ord" "HOL-Library.List_Lexorder"
begin

section \<open>The task supervisor of ralph\_manager.py\<close>

text \<open>
  The module keeps a registry of background tasks in one JSON file and talks to the
  operating system (signals, process groups, the clock, log files). Each function of
  the module is embedded as a function on an explicit \<open>world\<close>: the content of the
  state file, the files under the log directory, and the list of calls made to the
  environment so far. Whatever the environment answers (does a pid exist, what does
  the reap return, what time is it) is read from an oracle \<open>env\<close>, indexed by the
  number of calls already made, so that every theorem holds for every behaviour of
  the operating system.
\<close>

subsection \<open>Python values read from and written to the state file\<close>

text \<open>
  What \<^verbatim>\<open>json.load\<close> returns: \<^verbatim>\<open>None\<close>, booleans, integers, strings, lists and
  dicts with string keys (in insertion order). Numbers with a fraction or an exponent
  are left out: no function of the module writes one. Strings are byte lists (UTF-8);
  equality and the order of strings are the same on bytes as on code points.
\<close>

datatype json =
    JNull
  | JBool bool
  | JInt int
  | JStr string
  | JArr "json list"
  | JObj "(string \<times> json) list"

text \<open>
  A task is the dict literal built in \<^verbatim>\<open>run_task\<close>; the key \<^verbatim>\<open>'id'\<close> is the field
  \<open>id_task\<close>. The timestamps are the strings that \<^verbatim>\<open>isoformat()\<close> returns.
\<close>

record task =
  id_task :: string
  name :: string
  command :: string
  pid :: int
  status :: string
  started_at :: string
  timeout :: int
  output_file :: string
  exit_code :: "int option"
  completed_at :: "string option"

text \<open>
  The document \<^verbatim>\<open>{'tasks': {...}, 'next_id': n}\<close>. The dict of tasks is the list of
  its items in insertion order; looking a key up is \<open>map_of\<close>, assigning to a key is
  \<open>AList.update\<close> (in place when the key is there, at the end otherwise). A Python dict
  holds a key once; the theorems below hold for every list.
\<close>

record document =
  tasks :: "(string \<times> task) list"
  next_id :: int

text \<open>Exceptions that leave a function of the module.\<close>

datatype error =
    TypeError
  | UnicodeDecodeError
  | ValueError
  | NotADocument

subsection \<open>A document as a Python value, and back\<close>

definition json_of_int_option :: "int option \<Rightarrow> json" where
  "json_of_int_option v = (case v of None \<Rightarrow> JNull | Some n \<Rightarrow> JInt n)"

definition json_of_string_option :: "string option \<Rightarrow> json" where
  "json_of_string_option v = (case v of None \<Rightarrow> JNull | Some s \<Rightarrow> JStr s)"

definition json_of_task :: "task \<Rightarrow> json" where
  "json_of_task t = JObj
     [(''id'', JStr (id_task t)),
      (''name'', JStr (name t)),
      (''command'', JStr (command t)),
      (''pid'', JInt (pid t)),
      (''status'', JStr (status t)),
      (''started_at'', JStr (started_at t)),
      (''timeout'', JInt (timeout t)),
      (''output_file'', JStr (output_file t)),
      (''exit_code'', json_of_int_option (exit_code t)),
      (''completed_at'', json_of_string_option (completed_at t))]"

definition json_of_document :: "document \<Rightarrow> json" where
  "json_of_document d = JObj
     [(''tasks'', JObj (map (\<lambda>(k, t). (k, json_of_task t)) (tasks d))),
      (''next_id'', JInt (next_id d))]"

text \<open>
  Reading a value as a document. The fields are looked up by key, and the value is
  accepted only when it is exactly the value that \<open>json_of_document\<close> gives for them:
  the keys, their order and the types of the values are those the module writes.
\<close>

definition str_at :: "(string \<times> json) list \<Rightarrow> string \<Rightarrow> string option" where
  "str_at kvs k = (case map_of kvs k of Some (JStr s) \<Rightarrow> Some s | _ \<Rightarrow> None)"

definition int_at :: "(string \<times> json) list \<Rightarrow> string \<Rightarrow> int option" where
  "int_at kvs k = (case map_of kvs k of Some (JInt n) \<Rightarrow> Some n | _ \<Rightarrow> None)"

definition task_of_json :: "json \<Rightarrow> task option" where
  "task_of_json j =
     (case j of
        JObj kvs \<Rightarrow>
          (case (str_at kvs ''id'', str_at kvs ''name'', str_at kvs ''command'',
                 int_at kvs ''pid'', str_at kvs ''status'', str_at kvs ''started_at'',
                 int_at kvs ''timeout'', str_at kvs ''output_file'') of
             (Some i, Some n, Some c, Some p, Some s, Some st, Some tmo, Some out) \<Rightarrow>
               (let t = \<lparr>id_task = i, name = n, command = c, pid = p, status = s,
                         started_at = st, timeout = tmo, output_file = out,
                         exit_code = int_at kvs ''exit_code'',
                         completed_at = str_at kvs ''completed_at''\<rparr>
                in if json_of_task t = j then Some t else None)
           | _ \<Rightarrow> None)
      | _ \<Rightarrow> None)"

fun tasks_of_json :: "(string \<times> json) list \<Rightarrow> (string \<times> task) list option" where
  "tasks_of_json [] = Some []"
| "tasks_of_json ((k, j) # kvs) =
     (case task_of_json j of
        None \<Rightarrow> None
      | Some t \<Rightarrow> (case tasks_of_json kvs of None \<Rightarrow> None | Some ts \<Rightarrow> Some ((k, t) # ts)))"

definition document_of_json :: "json \<Rightarrow> document option" where
  "document_of_json j =
     (case j of
        JObj [(k1, JObj ts), (k2, JInt n)] \<Rightarrow>
          (if k1 = ''tasks'' \<and> k2 = ''next_id''
           then (case tasks_of_json ts of
                   None \<Rightarrow> None
                 | Some tsks \<Rightarrow> Some \<lparr>tasks = tsks, next_id = n\<rparr>)
           else None)
      | _ \<Rightarrow> None)"

subsection \<open>The world and the environment\<close>

text \<open>
  The state file: absent, present but not openable for reading (\<^verbatim>\<open>IOError\<close>), bytes
  that are not text in the locale's encoding, text that is not JSON, or the text of a
  JSON value (what \<^verbatim>\<open>json.load\<close> returns on it).
\<close>

datatype file_content =
    Missing
  | Unreadable
  | Undecodable
  | NotJson
  | Json json

text \<open>
  A file named by a task's \<open>output_file\<close>: its text, an open or read that raises
  \<^verbatim>\<open>IOError\<close> (with the text of the exception), or bytes that do not decode.
\<close>

datatype log_file =
    Text string
  | IOFailure string
  | BadBytes

datatype signal = SIGTERM | SIGKILL

datatype event =
    Now
  | Popen string
  | Kill0 int
  | Waitpid int
  | Getpgid int
  | Killpg int signal
  | Sleep nat

record world =
  state_file :: file_content
  logs :: "(string \<times> log_file) list"
  trace :: "event list"

text \<open>What \<^verbatim>\<open>os.waitpid\<close> hands to \<^verbatim>\<open>os.WIFEXITED\<close> and \<^verbatim>\<open>os.WEXITSTATUS\<close>.\<close>

datatype wait_status = Exited int | Signaled int

fun WIFEXITED :: "wait_status \<Rightarrow> bool" where
  "WIFEXITED (Exited c) = True"
| "WIFEXITED (Signaled s) = False"

fun WEXITSTATUS :: "wait_status \<Rightarrow> int" where
  "WEXITSTATUS (Exited c) = c"
| "WEXITSTATUS (Signaled s) = 0"

text \<open>
  The answers of the environment, each indexed by the number of calls made before it.
  \<open>clock\<close> is the reading of \<^verbatim>\<open>datetime.now()\<close> as a timestamp in microseconds (an
  integer where Python has a float of seconds),
  \<open>isoformat\<close> its string, \<open>fromisoformat\<close> the timestamp of a string (\<open>None\<close> for
  \<^verbatim>\<open>ValueError\<close>); \<open>os_kill0\<close> is false when \<^verbatim>\<open>os.kill(pid, 0)\<close> raises \<^verbatim>\<open>OSError\<close>;
  \<open>os_waitpid\<close> is \<open>None\<close> when \<^verbatim>\<open>os.waitpid\<close> raises \<^verbatim>\<open>ChildProcessError\<close>;
  \<open>os_getpgid\<close> is \<open>None\<close> and \<open>os_killpg\<close> is false when the call raises \<^verbatim>\<open>OSError\<close>.
\<close>

record env =
  clock :: "nat \<Rightarrow> int"
  isoformat :: "int \<Rightarrow> string"
  fromisoformat :: "string \<Rightarrow> int option"
  os_popen :: "nat \<Rightarrow> string \<Rightarrow> int"
  os_kill0 :: "nat \<Rightarrow> int \<Rightarrow> bool"
  os_waitpid :: "nat \<Rightarrow> int \<Rightarrow> wait_status option"
  os_getpgid :: "nat \<Rightarrow> int \<Rightarrow> int option"
  os_killpg :: "nat \<Rightarrow> int \<Rightarrow> signal \<Rightarrow> bool"

definition step :: "world \<Rightarrow> nat" where
  "step w = length (trace w)"

definition record_event :: "event \<Rightarrow> world \<Rightarrow> world" where
  "record_event e w = w\<lparr>trace := trace w @ [e]\<rparr>"

subsection \<open>load\_state and save\_state\<close>

definition fresh_document :: document where
  "fresh_document = \<lparr>tasks = [], next_id = 1\<rparr>"

definition load_state :: "world \<Rightarrow> error + json" where
  "load_state w =
     (case state_file w of
        Missing \<Rightarrow> Inr (json_of_document fresh_document)
      | Unreadable \<Rightarrow> Inr (json_of_document fresh_document)
      | Undecodable \<Rightarrow> Inl UnicodeDecodeError
      | NotJson \<Rightarrow> Inr (json_of_document fresh_document)
      | Json j \<Rightarrow> Inr j)"

text \<open>
  \<^verbatim>\<open>save_state\<close> opens the file for writing and dumps the whole document; the write is
  taken to succeed, and the text layer of the \<^verbatim>\<open>json\<close> library is taken to be exact:
  the file then holds the text of the value that \<open>json_of_document\<close> gives.
\<close>

definition save_state :: "document \<Rightarrow> world \<Rightarrow> world" where
  "save_state state w = w\<lparr>state_file := Json (json_of_document state)\<rparr>"

text \<open>
  Every other function starts with \<^verbatim>\<open>state = load_state()\<close> and then reads
  \<^verbatim>\<open>state['tasks']\<close>. On a value that is not a dict the subscript raises
  \<^verbatim>\<open>TypeError\<close>. A dict that is not a document is outside this development: the
  outcome \<open>NotADocument\<close> stands for whatever the code does on it.
\<close>

definition load_document :: "world \<Rightarrow> error + document" where
  "load_document w =
     (case load_state w of
        Inl e \<Rightarrow> Inl e
      | Inr (JObj kvs) \<Rightarrow>
          (case document_of_json (JObj kvs) of
             None \<Rightarrow> Inl NotADocument
           | Some d \<Rightarrow> Inr d)
      | Inr _ \<Rightarrow> Inl TypeError)"

subsection \<open>generate\_task\_id and run\_task\<close>

text \<open>
  The format \<^verbatim>\<open>f"{n:04d}"\<close>: the decimal digits of \<open>n\<close>, padded with zeros after the
  sign to a width of four characters.
\<close>

text \<open>\<open>digit_char\<close> is only applied to numbers below ten.\<close>

definition digit_char :: "nat \<Rightarrow> char" where
  "digit_char d = ''0123456789'' ! d"

fun digits_of :: "nat \<Rightarrow> string" where
  "digits_of n = (if n < 10 then [digit_char n]
                  else digits_of (n div 10) @ [digit_char (n mod 10)])"

declare digits_of.simps [simp del]

definition format_04d :: "int \<Rightarrow> string" where
  "format_04d n =
     (let ds = digits_of (nat \<bar>n\<bar>);
          sign = (if n < 0 then ''-'' else [])
      in sign @ replicate (4 - length sign - length ds) CHR ''0'' @ ds)"

definition generate_task_id :: "document \<Rightarrow> string \<times> document" where
  "generate_task_id state =
     (''ralph_'' @ format_04d (next_id state), state\<lparr>next_id := next_id state + 1\<rparr>)"

definition run_task :: "env \<Rightarrow> string \<Rightarrow> string \<Rightarrow> int \<Rightarrow> world \<Rightarrow> error + (task \<times> world)" where
  "run_task e cmd nm tmo w =
     (case load_document w of
        Inl x \<Rightarrow> Inl x
      | Inr state0 \<Rightarrow>
          (let (task_id, state) = generate_task_id state0;
               out = ''/tmp/ralph/'' @ task_id @ ''.log'';
               w1 = w\<lparr>logs := AList.update out (Text []) (logs w)\<rparr>;
               w2 = record_event (Popen cmd) w1;
               w3 = record_event Now w2;
               t = \<lparr>id_task = task_id, name = nm, command = cmd,
                    pid = os_popen e (step w1) cmd, status = ''running'',
                    started_at = isoformat e (clock e (step w2)), timeout = tmo,
                    output_file = out, exit_code = None, completed_at = None\<rparr>
           in Inr (t, save_state (state\<lparr>tasks := AList.update task_id t (tasks state)\<rparr>) w3)))"

text \<open>A sequence of \<^verbatim>\<open>run_task\<close> calls, one after the other on the same store.\<close>

fun run_tasks :: "env \<Rightarrow> (string \<times> string \<times> int) list \<Rightarrow> world \<Rightarrow> error + (task list \<times> world)" where
  "run_tasks e [] w = Inr ([], w)"
| "run_tasks e ((cmd, nm, tmo) # rs) w =
     (case run_task e cmd nm tmo w of
        Inl x \<Rightarrow> Inl x
      | Inr (t, w') \<Rightarrow>
          (case run_tasks e rs w' of
             Inl x \<Rightarrow> Inl x
           | Inr (ts, w'') \<Rightarrow> Inr (t # ts, w'')))"

text \<open>The number written after \<^verbatim>\<open>ralph_\<close> in a task id.\<close>

definition digit_val :: "char \<Rightarrow> nat" where
  "digit_val c = of_char c - 48"

definition nat_of_digits :: "string \<Rightarrow> nat" where
  "nat_of_digits cs = foldl (\<lambda>acc c. 10 * acc + digit_val c) 0 cs"

definition numeric_component :: "string \<Rightarrow> int" where
  "numeric_component task_id =
     (case drop 6 task_id of
        [] \<Rightarrow> 0
      | c # cs \<Rightarrow> if c = CHR ''-'' then - int (nat_of_digits cs) else int (nat_of_digits (c # cs)))"

subsection \<open>check\_task\<close>

definition check_task :: "env \<Rightarrow> string \<Rightarrow> world \<Rightarrow> error + (task option \<times> world)" where
  "check_task e task_id w =
     (case load_document w of
        Inl x \<Rightarrow> Inl x
      | Inr state \<Rightarrow>
          (case map_of (tasks state) task_id of
             None \<Rightarrow> Inr (None, w)
           | Some t \<Rightarrow>
               if status t = ''running'' then
                 (let w1 = record_event (Kill0 (pid t)) w in
                  if os_kill0 e (step w) (pid t) then Inr (Some t, w1)
                  else
                    let w2 = record_event Now w1;
                        t1 = t\<lparr>status := ''completed'',
                               completed_at := Some (isoformat e (clock e (step w1)))\<rparr>;
                        w3 = record_event (Waitpid (pid t)) w2;
                        t2 = (case os_waitpid e (step w2) (pid t) of
                                Some st \<Rightarrow>
                                  t1\<lparr>exit_code :=
                                       Some (if WIFEXITED st then WEXITSTATUS st else - 1)\<rparr>
                              | None \<Rightarrow> t1\<lparr>exit_code := Some 0\<rparr>)
                    in Inr (Some t2,
                            save_state (state\<lparr>tasks := AList.update task_id t2 (tasks state)\<rparr>) w3))
               else Inr (Some t, w)))"

subsection \<open>get\_task\_output\<close>

text \<open>\<^verbatim>\<open>f.readlines()\<close>: the text cut after each newline, the newlines kept.\<close>

fun readlines :: "string \<Rightarrow> string list" where
  "readlines [] = []"
| "readlines (c # cs) =
     (if c = CHR 0x0A then [c] # readlines cs
      else (case readlines cs of [] \<Rightarrow> [[c]] | l # ls \<Rightarrow> (c # l) # ls))"


subsection \<open>kill\_task\<close>

text \<open>The inner \<^verbatim>\<open>try\<close>: every \<^verbatim>\<open>OSError\<close> in it is passed over.\<close>

definition force_kill :: "env \<Rightarrow> int \<Rightarrow> world \<Rightarrow> world" where
  "force_kill e p w =
     (let w1 = record_event (Kill0 p) w in
      if os_kill0 e (step w) p then
        (let w2 = record_event (Getpgid p) w1 in
         case os_getpgid e (step w1) p of
           None \<Rightarrow> w2
         | Some pgid \<Rightarrow> record_event (Killpg pgid SIGKILL) w2)
      else w1)"

definition kill_task :: "env \<Rightarrow> string \<Rightarrow> world \<Rightarrow> error + (bool \<times> world)" where
  "kill_task e task_id w =
     (case load_document w of
        Inl x \<Rightarrow> Inl x
      | Inr state \<Rightarrow>
          (case map_of (tasks state) task_id of
             None \<Rightarrow> Inr (False, w)
           | Some t \<Rightarrow>
               if status t \<noteq> ''running'' then Inr (False, w)
               else
                 (let w1 = record_event (Getpgid (pid t)) w in
                  case os_getpgid e (step w) (pid t) of
                    None \<Rightarrow> Inr (False, w1)
                  | Some pgid \<Rightarrow>
                      (let w2 = record_event (Killpg pgid SIGTERM) w1 in
                       if \<not> os_killpg e (step w1) pgid SIGTERM then Inr (False, w2)
                       else
                         let w3 = record_event (Sleep 500) w2;
                             w4 = force_kill e (pid t) w3;
                             w5 = record_event Now w4;
                             t' = t\<lparr>status := ''killed'',
                                    completed_at := Some (isoformat e (clock e (step w4)))\<rparr>
                         in Inr (True,
                                 save_state (state\<lparr>tasks := AList.update task_id t' (tasks state)\<rparr>) w5)))))"

subsection \<open>list\_tasks\<close>

text \<open>The loop that probes every task that the first snapshot shows as running.\<close>

fun probe_running :: "env \<Rightarrow> task list \<Rightarrow> world \<Rightarrow> error + world" where
  "probe_running e [] w = Inr w"
| "probe_running e (t # ts) w =
     (if status t = ''running'' then
        (case check_task e (id_task t) w of
           Inl x \<Rightarrow> Inl x
         | Inr (r, w') \<Rightarrow> probe_running e ts w')
      else probe_running e ts w)"

text \<open>
  The comprehension that keeps the running and the recent tasks; \<^verbatim>\<open>fromisoformat\<close> is
  called on the tasks that are not running only, and its \<^verbatim>\<open>ValueError\<close> ends the call.
\<close>

fun recent_or_running :: "env \<Rightarrow> int \<Rightarrow> task list \<Rightarrow> error + task list" where
  "recent_or_running e cutoff [] = Inr []"
| "recent_or_running e cutoff (t # ts) =
     (if status t = ''running'' then
        (case recent_or_running e cutoff ts of Inl x \<Rightarrow> Inl x | Inr r \<Rightarrow> Inr (t # r))
      else
        (case fromisoformat e (started_at t) of
           None \<Rightarrow> Inl ValueError
         | Some s \<Rightarrow>
             (case recent_or_running e cutoff ts of
                Inl x \<Rightarrow> Inl x
              | Inr r \<Rightarrow> Inr (if s > cutoff then t # r else r))))"

text \<open>
  \<^verbatim>\<open>sorted(tasks, key=..., reverse=True)\<close>: a stable sort in descending order, which
  Python computes by reversing, sorting in ascending order and reversing again.
\<close>

definition sorted_reverse :: "task list \<Rightarrow> task list" where
  "sorted_reverse ts = rev (sort_key started_at (rev ts))"

definition list_tasks :: "env \<Rightarrow> bool \<Rightarrow> world \<Rightarrow> error + (task list \<times> world)" where
  "list_tasks e show_all w =
     (case load_document w of
        Inl x \<Rightarrow> Inl x
      | Inr state0 \<Rightarrow>
          (case probe_running e (map snd (tasks state0)) w of
             Inl x \<Rightarrow> Inl x
           | Inr w1 \<Rightarrow>
               (case load_document w1 of
                  Inl x \<Rightarrow> Inl x
                | Inr state \<Rightarrow>
                    if \<not> show_all then
                      (let cutoff = clock e (step w1) - 86400000000;
                           w2 = record_event Now w1
                       in case recent_or_running e cutoff (map snd (tasks state)) of
                            Inl x \<Rightarrow> Inl x
                          | Inr ts \<Rightarrow> Inr (sorted_reverse ts, w2))
                    else Inr (sorted_reverse (map snd (tasks state)), w1))))"

subsection \<open>clean\_tasks\<close>

text \<open>
  \<^verbatim>\<open>Path('/tmp/ralph').glob('ralph_*.log')\<close> yields the files directly under the
  directory whose name starts with \<^verbatim>\<open>ralph_\<close> and ends with \<^verbatim>\<open>.log\<close>; \<^verbatim>\<open>f.stem\<close> is
  the name without its last suffix.
\<close>

definition path_name :: "string \<Rightarrow> string" where
  "path_name p = rev (takeWhile (\<lambda>c. c \<noteq> CHR ''/'') (rev p))"

definition glob_ralph_log :: "string \<Rightarrow> bool" where
  "glob_ralph_log p =
     (let n = path_name p
      in p = ''/tmp/ralph/'' @ n \<and> take 6 n = ''ralph_'' \<and> 10 \<le> length n
         \<and> drop (length n - 4) n = ''.log'')"

definition stem :: "string \<Rightarrow> string" where
  "stem p =
     (let n = path_name p;
          after_dot = takeWhile (\<lambda>c. c \<noteq> CHR ''.'') (rev n)
      in case dropWhile (\<lambda>c. c \<noteq> CHR ''.'') (rev n) of
           [] \<Rightarrow> n
         | d # before_dot \<Rightarrow> if before_dot = [] \<or> after_dot = [] then n else rev before_dot)"

definition clean_tasks :: "bool \<Rightarrow> world \<Rightarrow> error + (int \<times> world)" where
  "clean_tasks keep_running w =
     (case load_document w of
        Inl x \<Rightarrow> Inl x
      | Inr state0 \<Rightarrow>
          (let original_count = length (tasks state0);
               state = state0\<lparr>tasks :=
                         (if keep_running
                          then filter (\<lambda>(tid, t). status t = ''running'') (tasks state0)
                          else [])\<rparr>;
               w1 = save_state state w;
               w2 = w1\<lparr>logs :=
                      filter (\<lambda>(p, f). \<not> (glob_ralph_log p \<and> stem p \<notin> set (map fst (tasks state))))
                        (logs w1)\<rparr>
           in Inr (int original_count - int (length (tasks state)), w2)))"

subsection \<open>A concrete store and environment\<close>

text \<open>
  A store with one task shown as running, one completed and one killed; the log of the
  first has three lines, the log of the second cannot be read, the log of the third is
  gone, and the directory holds the log of an id that the store does not know. In the
  environment only pid 1 is found.
\<close>

definition task_example :: task where
  "task_example =
     \<lparr>id_task = ''ralph_0001'', name = ''tests'', command = ''pytest'', pid = 4242,
      status = ''running'', started_at = ''2024-01-01T10:00:00'', timeout = 300,
      output_file = ''/tmp/ralph/ralph_0001.log'', exit_code = None, completed_at = None\<rparr>"

definition task_done_example :: task where
  "task_done_example =
     \<lparr>id_task = ''ralph_0002'', name = ''lint'', command = ''ruff'', pid = 4243,
      status = ''completed'', started_at = ''2024-01-01T09:00:00'', timeout = 300,
      output_file = ''/tmp/ralph/ralph_0002.log'', exit_code = Some 0,
      completed_at = Some ''2024-01-01T09:00:05''\<rparr>"

definition task_killed_example :: task where
  "task_killed_example =
     \<lparr>id_task = ''ralph_0003'', name = ''build'', command = ''make'', pid = 4250,
      status = ''killed'', started_at = ''2023-12-30T08:00:00'', timeout = 300,
      output_file = ''/tmp/ralph/ralph_0003.log'', exit_code = None,
      completed_at = Some ''2023-12-30T08:00:09''\<rparr>"

definition document_example :: document where
  "document_example =
     \<lparr>tasks = [(''ralph_0001'', task_example), (''ralph_0002'', task_done_example),
               (''ralph_0003'', task_killed_example)],
      next_id = 4\<rparr>"

definition world_example :: world where
  "world_example =
     \<lparr>state_file = Json (json_of_document document_example),
      logs = [(''/tmp/ralph/ralph_0001.log'', Text (''a'' @ [CHR 0x0A] @ ''b'' @ [CHR 0x0A] @ ''c'' @ [CHR 0x0A])),
              (''/tmp/ralph/ralph_0002.log'', IOFailure ''[Errno 13] Permission denied''),
              (''/tmp/ralph/ralph_0007.log'', Text ''old''),
              (''/tmp/ralph/notes.txt'', Text ''kept'')],
      trace = []\<rparr>"

definition env_example :: env where
  "env_example =
     \<lparr>clock = (\<lambda>n. 1704103200000000),
      isoformat = (\<lambda>t. ''2024-01-01T10:00:00''),
      fromisoformat = (\<lambda>s. if s = ''2024-01-01T10:00:00'' then Some 1704103200000000
                            else if s = ''2024-01-01T09:00:00'' then Some 1704099600000000
                            else if s = ''2023-12-30T08:00:00'' then Some 1703923200000000
                            else None),
      os_popen = (\<lambda>n c. 4244),
      os_kill0 = (\<lambda>n p. p = 1),
      os_waitpid = (\<lambda>n p. None),
      os_getpgid = (\<lambda>n p. if p = 1 then Some 1 else None),
      os_killpg = (\<lambda>n g s. True)\<rparr>"


definition world_not_json :: world where
  "world_not_json = \<lparr>state_file = NotJson, logs = [], trace = []\<rparr>"

text \<open>An environment in which every process is found and survives \<^verbatim>\<open>SIGTERM\<close>.\<close>

definition env_stubborn :: env where
  "env_stubborn =
     \<lparr>clock = (\<lambda>n. 1704103200000000),
      isoformat = (\<lambda>t. ''2024-01-01T10:00:00''),
      fromisoformat = (\<lambda>s. if s = ''2024-01-01T10:00:00'' then Some 1704103200000000
                            else if s = ''2024-01-01T09:00:00'' then Some 1704099600000000
                            else if s = ''2023-12-30T08:00:00'' then Some 1703923200000000
                            else None),
      os_popen = (\<lambda>n c. 4244),
      os_kill0 = (\<lambda>n p. True),
      os_waitpid = (\<lambda>n p. None),
      os_getpgid = (\<lambda>n p. Some p),
      os_killpg = (\<lambda>n g s. True)\<rparr>"

subsection \<open>Sequences of check\_task and kill\_task calls\<close>

datatype call = Check string | Kill string

fun apply_call :: "env \<Rightarrow> call \<Rightarrow> world \<Rightarrow> error + world" where
  "apply_call e (Check k) w = (case check_task e k w of Inl x \<Rightarrow> Inl x | Inr (r, w') \<Rightarrow> Inr w')"
| "apply_call e (Kill k) w = (case kill_task e k w of Inl x \<Rightarrow> Inl x | Inr (r, w') \<Rightarrow> Inr w')"

fun apply_calls :: "env \<Rightarrow> call list \<Rightarrow> world \<Rightarrow> error + world" where
  "apply_calls e [] w = Inr w"
| "apply_calls e (c # cs) w =
     (case apply_call e c w of Inl x \<Rightarrow> Inl x | Inr w' \<Rightarrow> apply_calls e cs w')"

section \<open>Properties\<close>

subsection \<open>Reading back what was written\<close>

lemma str_at_simps [simp]:
  "str_at [] k = None"
  "str_at ((k', v) # kvs) k =
     (if k' = k then (case v of JStr s \<Rightarrow> Some s | _ \<Rightarrow> None) else str_at kvs k)"
  by (simp_all add: str_at_def)

lemma int_at_simps [simp]:
  "int_at [] k = None"
  "int_at ((k', v) # kvs) k =
     (if k' = k then (case v of JInt n \<Rightarrow> Some n | _ \<Rightarrow> None) else int_at kvs k)"
  by (simp_all add: int_at_def)

lemma int_option_back [simp]:
  "(case json_of_int_option v of JInt x \<Rightarrow> Some x | _ \<Rightarrow> None) = v"
  by (cases v) (simp_all add: json_of_int_option_def)

lemma string_option_back [simp]:
  "(case json_of_string_option v of JStr x \<Rightarrow> Some x | _ \<Rightarrow> None) = v"
  by (cases v) (simp_all add: json_of_string_option_def)

lemma task_of_json_of_task: "task_of_json (json_of_task t) = Some t"
  unfolding task_of_json_def
  by (simp add: json_of_task_def)

lemma tasks_of_json_map:
  "tasks_of_json (map (\<lambda>(k, t). (k, json_of_task t)) ts) = Some ts"
  by (induction ts) (auto simp: task_of_json_of_task)

lemma document_of_json_of_document: "document_of_json (json_of_document d) = Some d"
  by (simp add: document_of_json_def json_of_document_def tasks_of_json_map)

lemma load_document_json:
  "state_file w = Json (json_of_document d) \<Longrightarrow> load_document w = Inr d"
  using document_of_json_of_document [of d]
  by (simp add: load_document_def load_state_def json_of_document_def)

lemma load_document_fresh:
  "state_file w = Missing \<or> state_file w = Unreadable \<or> state_file w = NotJson
     \<Longrightarrow> load_document w = Inr fresh_document"
  using document_of_json_of_document [of fresh_document]
  by (auto simp: load_document_def load_state_def json_of_document_def)

lemma load_document_save_state [simp]: "load_document (save_state d w) = Inr d"
  by (rule load_document_json) (simp add: save_state_def)

lemma save_state_simps [simp]:
  "logs (save_state d w) = logs w"
  "trace (save_state d w) = trace w"
  "state_file (save_state d w) = Json (json_of_document d)"
  "step (save_state d w) = step w"
  by (simp_all add: save_state_def step_def)

lemma record_event_simps [simp]:
  "state_file (record_event ev w) = state_file w"
  "logs (record_event ev w) = logs w"
  "trace (record_event ev w) = trace w @ [ev]"
  "step (record_event ev w) = Suc (step w)"
  "load_document (record_event ev w) = load_document w"
  by (simp_all add: record_event_def step_def load_document_def load_state_def)

lemma load_document_world_example [simp]: "load_document world_example = Inr document_example"
  by (rule load_document_json) (simp add: world_example_def)

lemma step_world_example [simp]: "step world_example = 0"
  by (simp add: step_def world_example_def)

text \<open>
  C9. A document that is saved and loaded again is the same document: the same task
  records under the same ids in the same order, with the same fields, and the same
  counter. This holds for every document, whatever the state file held before.
\<close>

theorem save_state_load_state_roundtrip:
  "load_state (save_state d w) = Inr (json_of_document d)
   \<and> document_of_json (json_of_document d) = Some d
   \<and> load_document (save_state d w) = Inr d"
proof -
  have "state_file (save_state d w) = Json (json_of_document d)"
    by (simp add: save_state_def)
  then have "load_state (save_state d w) = Inr (json_of_document d)"
    by (simp add: load_state_def)
  moreover have "document_of_json (json_of_document d) = Some d"
    by (rule document_of_json_of_document)
  moreover have "load_document (save_state d w) = Inr d"
    by (rule load_document_save_state)
  ultimately show ?thesis
    by simp
qed

subsection \<open>load\_state on files that are missing or damaged\<close>




subsection \<open>check\_task\<close>

lemma check_task_dead:
  assumes "load_document w = Inr d" and "map_of (tasks d) tid = Some t"
    and "status t = ''running''" and "\<not> os_kill0 e (step w) (pid t)"
  shows "check_task e tid w =
           (let t' = t\<lparr>status := ''completed'',
                       completed_at := Some (isoformat e (clock e (Suc (step w)))),
                       exit_code :=
                         Some (case os_waitpid e (Suc (Suc (step w))) (pid t) of
                                 None \<Rightarrow> 0
                               | Some st \<Rightarrow> if WIFEXITED st then WEXITSTATUS st else - 1)\<rparr>
            in Inr (Some t',
                    save_state (d\<lparr>tasks := AList.update tid t' (tasks d)\<rparr>)
                      (record_event (Waitpid (pid t))
                        (record_event Now (record_event (Kill0 (pid t)) w)))))"
  using assms
  by (simp add: check_task_def Let_def split: option.splits)

lemma check_task_alive:
  assumes "load_document w = Inr d" and "map_of (tasks d) tid = Some t"
    and "status t = ''running''" and "os_kill0 e (step w) (pid t)"
  shows "check_task e tid w = Inr (Some t, record_event (Kill0 (pid t)) w)"
  using assms by (simp add: check_task_def Let_def)

lemma check_task_not_running:
  assumes "load_document w = Inr d" and "map_of (tasks d) tid = Some t"
    and "status t \<noteq> ''running''"
  shows "check_task e tid w = Inr (Some t, w)"
  using assms by (simp add: check_task_def)

lemma check_task_absent:
  assumes "load_document w = Inr d" and "map_of (tasks d) tid = None"
  shows "check_task e tid w = Inr (None, w)"
  using assms by (simp add: check_task_def)

text \<open>
  C1. A task that the store shows as running and whose pid the operating system no
  longer finds: \<open>check_task\<close> returns the record with status \<^verbatim>\<open>completed\<close>,
  \<open>completed_at\<close> set to the time read after the probe, and the exit code taken from
  the reap made with \<^verbatim>\<open>WNOHANG\<close> (0 when the reap raises \<^verbatim>\<open>ChildProcessError\<close>); every
  other field is as before; the store holds the returned record under the same id when
  the call returns, and nothing else in the store has changed.
\<close>

theorem check_task_dead_pid_completes:
  assumes "load_document w = Inr d"
    and "map_of (tasks d) tid = Some t"
    and "status t = ''running''"
    and "\<not> os_kill0 e (step w) (pid t)"
  shows "\<exists>t' w'. check_task e tid w = Inr (Some t', w')
           \<and> status t' = ''completed''
           \<and> completed_at t' = Some (isoformat e (clock e (step w + 1)))
           \<and> exit_code t' =
               Some (case os_waitpid e (step w + 2) (pid t) of
                       None \<Rightarrow> 0
                     | Some st \<Rightarrow> if WIFEXITED st then WEXITSTATUS st else - 1)
           \<and> t' = t\<lparr>status := status t', completed_at := completed_at t',
                     exit_code := exit_code t'\<rparr>
           \<and> trace w' = trace w @ [Kill0 (pid t), Now, Waitpid (pid t)]
           \<and> logs w' = logs w
           \<and> load_document w' = Inr (d\<lparr>tasks := AList.update tid t' (tasks d)\<rparr>)
           \<and> map_of (AList.update tid t' (tasks d)) tid = Some t'"
  using check_task_dead [OF assms]
  by (simp add: Let_def update_conv')

theorem check_task_dead_pid_completes_witness:
  "load_document world_example = Inr document_example
   \<and> map_of (tasks document_example) ''ralph_0001'' = Some task_example
   \<and> status task_example = ''running''
   \<and> \<not> os_kill0 env_example (step world_example) (pid task_example)
   \<and> (\<exists>t' w'. check_task env_example ''ralph_0001'' world_example = Inr (Some t', w')
         \<and> status t' = ''completed''
         \<and> completed_at t' = Some ''2024-01-01T10:00:00''
         \<and> exit_code t' = Some 0
         \<and> trace w' = [Kill0 4242, Now, Waitpid 4242])"
proof -
  have h2: "map_of (tasks document_example) ''ralph_0001'' = Some task_example"
    by (simp add: document_example_def)
  have h3: "status task_example = ''running''"
    by (simp add: task_example_def)
  have h4: "\<not> os_kill0 env_example (step world_example) (pid task_example)"
    by (simp add: env_example_def task_example_def)
  from check_task_dead_pid_completes [OF load_document_world_example h2 h3 h4]
  obtain t' w' where
    "check_task env_example ''ralph_0001'' world_example = Inr (Some t', w')"
    "status t' = ''completed''"
    "completed_at t' = Some (isoformat env_example (clock env_example (step world_example + 1)))"
    "exit_code t' =
       Some (case os_waitpid env_example (step world_example + 2) (pid task_example) of
               None \<Rightarrow> 0
             | Some st \<Rightarrow> if WIFEXITED st then WEXITSTATUS st else - 1)"
    "trace w' = trace world_example @ [Kill0 (pid task_example), Now, Waitpid (pid task_example)]"
    by blast
  then have "check_task env_example ''ralph_0001'' world_example = Inr (Some t', w')
         \<and> status t' = ''completed''
         \<and> completed_at t' = Some ''2024-01-01T10:00:00''
         \<and> exit_code t' = Some 0
         \<and> trace w' = [Kill0 4242, Now, Waitpid 4242]"
    by (simp add: env_example_def task_example_def world_example_def)
  then show ?thesis
    using load_document_world_example h2 h3 h4 by blast
qed

text \<open>
  C10. When \<open>check_task\<close> takes a task from \<^verbatim>\<open>running\<close> to \<^verbatim>\<open>completed\<close>, the exit code
  of the result is an integer, never \<^verbatim>\<open>None\<close>: the exit status when the reap reports a
  normal exit, -1 when it reports any other status, 0 when the reap raises
  \<^verbatim>\<open>ChildProcessError\<close>.
\<close>

theorem check_task_exit_code_three_values:
  assumes "load_document w = Inr d"
    and "map_of (tasks d) tid = Some t"
    and "status t = ''running''"
    and "check_task e tid w = Inr (Some t', w')"
    and "status t' = ''completed''"
  shows "\<exists>c. exit_code t' = Some c
           \<and> (case os_waitpid e (step w + 2) (pid t) of
                 Some st \<Rightarrow> (WIFEXITED st \<and> c = WEXITSTATUS st) \<or> (\<not> WIFEXITED st \<and> c = - 1)
               | None \<Rightarrow> c = 0)"
proof (cases "os_kill0 e (step w) (pid t)")
  case True
  from check_task_alive [OF assms(1-3) True] assms(4) have "t' = t"
    by simp
  with assms(3,5) show ?thesis
    by simp
next
  case False
  from check_task_dead [OF assms(1-3) False] assms(4) show ?thesis
    by (auto simp: Let_def split: option.splits)
qed

theorem check_task_exit_code_three_values_witness:
  "load_document world_example = Inr document_example
   \<and> map_of (tasks document_example) ''ralph_0001'' = Some task_example
   \<and> status task_example = ''running''
   \<and> (\<exists>t' w'. check_task env_example ''ralph_0001'' world_example = Inr (Some t', w')
         \<and> status t' = ''completed'' \<and> exit_code t' = Some 0)"
proof -
  have h2: "map_of (tasks document_example) ''ralph_0001'' = Some task_example"
    by (simp add: document_example_def)
  have h3: "status task_example = ''running''"
    by (simp add: task_example_def)
  have h4: "\<not> os_kill0 env_example (step world_example) (pid task_example)"
    by (simp add: env_example_def task_example_def)
  obtain t' w' where
    c: "check_task env_example ''ralph_0001'' world_example = Inr (Some t', w')"
    and s: "status t' = ''completed''"
    using check_task_dead [OF load_document_world_example h2 h3 h4]
    by (simp add: Let_def)
  from check_task_exit_code_three_values [OF load_document_world_example h2 h3 c s]
  have "exit_code t' = Some 0"
    by (auto simp: env_example_def)
  with c s h2 h3 load_document_world_example show ?thesis
    by blast
qed

subsection \<open>kill\_task\<close>

lemma map_of_document_example [simp]:
  "map_of (tasks document_example) ''ralph_0001'' = Some task_example"
  "map_of (tasks document_example) ''ralph_0002'' = Some task_done_example"
  "map_of (tasks document_example) ''ralph_0009'' = None"
  "map_of (tasks document_example) ''ralph_0003'' = Some task_killed_example"
  by (simp_all add: document_example_def)

lemma kill_task_no_op:
  assumes "load_document w = Inr d"
    and "map_of (tasks d) tid = None \<or> (\<exists>t. map_of (tasks d) tid = Some t \<and> status t \<noteq> ''running'')"
  shows "kill_task e tid w = Inr (False, w)"
  using assms by (auto simp: kill_task_def)

lemma step_force_kill:
  "trace (force_kill e p w) =
     trace w @ Kill0 p #
       (if os_kill0 e (step w) p
        then (case os_getpgid e (Suc (step w)) p of
                None \<Rightarrow> [Getpgid p]
              | Some g \<Rightarrow> [Getpgid p, Killpg g SIGKILL])
        else [])"
  "state_file (force_kill e p w) = state_file w"
  "logs (force_kill e p w) = logs w"
  by (simp_all add: force_kill_def Let_def split: option.splits)

lemma kill_task_os_error:
  assumes "load_document w = Inr d" and "map_of (tasks d) tid = Some t"
    and "status t = ''running''"
    and "os_getpgid e (step w) (pid t) = None
         \<or> (\<exists>g. os_getpgid e (step w) (pid t) = Some g \<and> \<not> os_killpg e (Suc (step w)) g SIGTERM)"
  shows "\<exists>w'. kill_task e tid w = Inr (False, w') \<and> state_file w' = state_file w
           \<and> logs w' = logs w"
  using assms by (auto simp: kill_task_def Let_def)

lemma kill_task_success:
  assumes "load_document w = Inr d" and "map_of (tasks d) tid = Some t"
    and "status t = ''running''"
    and "os_getpgid e (step w) (pid t) = Some g"
    and "os_killpg e (Suc (step w)) g SIGTERM"
  shows "kill_task e tid w =
           (let w4 = force_kill e (pid t)
                       (record_event (Sleep 500)
                         (record_event (Killpg g SIGTERM) (record_event (Getpgid (pid t)) w)));
                t' = t\<lparr>status := ''killed'',
                       completed_at := Some (isoformat e (clock e (step w4)))\<rparr>
            in Inr (True, save_state (d\<lparr>tasks := AList.update tid t' (tasks d)\<rparr>)
                            (record_event Now w4)))"
  using assms by (simp add: kill_task_def Let_def)

text \<open>
  C2. \<open>kill_task\<close> returns false and leaves the world as it is when the id is absent
  or the task is not running. For a running task whose process group is found and
  takes the \<^verbatim>\<open>SIGTERM\<close>, it sleeps half a second, probes the pid again, sends
  \<^verbatim>\<open>SIGKILL\<close> to the group when the probe finds the process (and its group can still be
  looked up), and in every case stores status \<^verbatim>\<open>killed\<close> with the time read last and
  returns true. When looking up the group or signalling it raises \<^verbatim>\<open>OSError\<close>, the
  call returns false, raises nothing and leaves the state file as it was.
\<close>

theorem kill_task_behaviour:
  assumes "load_document w = Inr d"
  shows "(map_of (tasks d) tid = None
            \<or> (\<exists>t. map_of (tasks d) tid = Some t \<and> status t \<noteq> ''running'')
          \<longrightarrow> kill_task e tid w = Inr (False, w))
       \<and> (map_of (tasks d) tid = Some t \<and> status t = ''running''
            \<and> os_getpgid e (step w) (pid t) = Some g \<and> os_killpg e (step w + 1) g SIGTERM
          \<longrightarrow> (\<exists>t' w'. kill_task e tid w = Inr (True, w')
                  \<and> trace w' =
                      trace w @ [Getpgid (pid t), Killpg g SIGTERM, Sleep 500, Kill0 (pid t)]
                        @ (if os_kill0 e (step w + 3) (pid t)
                           then (case os_getpgid e (step w + 4) (pid t) of
                                   None \<Rightarrow> [Getpgid (pid t)]
                                 | Some g' \<Rightarrow> [Getpgid (pid t), Killpg g' SIGKILL])
                           else [])
                        @ [Now]
                  \<and> t' = t\<lparr>status := ''killed'',
                            completed_at := Some (isoformat e (clock e (step w' - 1)))\<rparr>
                  \<and> logs w' = logs w
                  \<and> load_document w' = Inr (d\<lparr>tasks := AList.update tid t' (tasks d)\<rparr>)
                  \<and> map_of (AList.update tid t' (tasks d)) tid = Some t'))
       \<and> (map_of (tasks d) tid = Some t \<and> status t = ''running''
            \<and> (os_getpgid e (step w) (pid t) = None
                \<or> (os_getpgid e (step w) (pid t) = Some g \<and> \<not> os_killpg e (step w + 1) g SIGTERM))
          \<longrightarrow> (\<exists>w'. kill_task e tid w = Inr (False, w') \<and> state_file w' = state_file w
                  \<and> logs w' = logs w))"
proof (intro conjI impI)
  assume "map_of (tasks d) tid = None
            \<or> (\<exists>t. map_of (tasks d) tid = Some t \<and> status t \<noteq> ''running'')"
  then show "kill_task e tid w = Inr (False, w)"
    by (rule kill_task_no_op [OF assms])
next
  assume a: "map_of (tasks d) tid = Some t \<and> status t = ''running''
            \<and> os_getpgid e (step w) (pid t) = Some g \<and> os_killpg e (step w + 1) g SIGTERM"
  then have k: "os_killpg e (Suc (step w)) g SIGTERM" by simp
  from a kill_task_success [OF assms _ _ _ k, of tid t]
  show "\<exists>t' w'. kill_task e tid w = Inr (True, w')
                  \<and> trace w' =
                      trace w @ [Getpgid (pid t), Killpg g SIGTERM, Sleep 500, Kill0 (pid t)]
                        @ (if os_kill0 e (step w + 3) (pid t)
                           then (case os_getpgid e (step w + 4) (pid t) of
                                   None \<Rightarrow> [Getpgid (pid t)]
                                 | Some g' \<Rightarrow> [Getpgid (pid t), Killpg g' SIGKILL])
                           else [])
                        @ [Now]
                  \<and> t' = t\<lparr>status := ''killed'',
                            completed_at := Some (isoformat e (clock e (step w' - 1)))\<rparr>
                  \<and> logs w' = logs w
                  \<and> load_document w' = Inr (d\<lparr>tasks := AList.update tid t' (tasks d)\<rparr>)
                  \<and> map_of (AList.update tid t' (tasks d)) tid = Some t'"
    by (simp add: Let_def step_force_kill update_conv' step_def eval_nat_numeral split: option.splits)
next
  assume a: "map_of (tasks d) tid = Some t \<and> status t = ''running''
            \<and> (os_getpgid e (step w) (pid t) = None
                \<or> (os_getpgid e (step w) (pid t) = Some g \<and> \<not> os_killpg e (step w + 1) g SIGTERM))"
  then show "\<exists>w'. kill_task e tid w = Inr (False, w') \<and> state_file w' = state_file w
                  \<and> logs w' = logs w"
    using kill_task_os_error [OF assms, of tid t e] by auto
qed


theorem kill_task_behaviour_witness:
  "load_document world_example = Inr document_example
   \<and> map_of (tasks document_example) ''ralph_0009'' = None
   \<and> kill_task env_example ''ralph_0009'' world_example = Inr (False, world_example)
   \<and> map_of (tasks document_example) ''ralph_0002'' = Some task_done_example
   \<and> status task_done_example \<noteq> ''running''
   \<and> kill_task env_example ''ralph_0002'' world_example = Inr (False, world_example)
   \<and> map_of (tasks document_example) ''ralph_0001'' = Some task_example
   \<and> status task_example = ''running''
   \<and> os_getpgid env_stubborn (step world_example) (pid task_example) = Some 4242
   \<and> os_killpg env_stubborn (step world_example + 1) 4242 SIGTERM
   \<and> (\<exists>w'. kill_task env_stubborn ''ralph_0001'' world_example = Inr (True, w')
         \<and> trace w' = [Getpgid 4242, Killpg 4242 SIGTERM, Sleep 500, Kill0 4242,
                        Getpgid 4242, Killpg 4242 SIGKILL, Now])
   \<and> os_getpgid env_example (step world_example) (pid task_example) = None
   \<and> (\<exists>w'. kill_task env_example ''ralph_0001'' world_example = Inr (False, w')
         \<and> state_file w' = state_file world_example)"
proof -
  note k = kill_task_behaviour [OF load_document_world_example]
  have s2: "status task_done_example \<noteq> ''running''"
    by (simp add: task_done_example_def)
  have s1: "status task_example = ''running''"
    by (simp add: task_example_def)
  have g: "os_getpgid env_stubborn (step world_example) (pid task_example) = Some 4242"
    "os_killpg env_stubborn (step world_example + 1) 4242 SIGTERM"
    "os_getpgid env_example (step world_example) (pid task_example) = None"
    by (simp_all add: env_stubborn_def env_example_def task_example_def)
  have a: "kill_task env_example ''ralph_0009'' world_example = Inr (False, world_example)"
    using k [of "''ralph_0009''" env_example task_example 0] by simp
  have b: "kill_task env_example ''ralph_0002'' world_example = Inr (False, world_example)"
    using k [of "''ralph_0002''" env_example task_example 0] s2 by simp
  have c: "\<exists>w'. kill_task env_stubborn ''ralph_0001'' world_example = Inr (True, w')
         \<and> trace w' = [Getpgid 4242, Killpg 4242 SIGTERM, Sleep 500, Kill0 4242,
                        Getpgid 4242, Killpg 4242 SIGKILL, Now]"
  proof -
    from k [of "''ralph_0001''" env_stubborn task_example 4242] s1 g
    obtain w' where "kill_task env_stubborn ''ralph_0001'' world_example = Inr (True, w')"
      and "trace w' =
             trace world_example @
               [Getpgid (pid task_example), Killpg 4242 SIGTERM, Sleep 500, Kill0 (pid task_example)]
               @ (if os_kill0 env_stubborn (step world_example + 3) (pid task_example)
                  then (case os_getpgid env_stubborn (step world_example + 4) (pid task_example) of
                          None \<Rightarrow> [Getpgid (pid task_example)]
                        | Some g' \<Rightarrow> [Getpgid (pid task_example), Killpg g' SIGKILL])
                  else [])
               @ [Now]"
      by auto
    then show ?thesis
      by (simp add: env_stubborn_def task_example_def world_example_def)
  qed
  have d: "\<exists>w'. kill_task env_example ''ralph_0001'' world_example = Inr (False, w')
         \<and> state_file w' = state_file world_example"
    using k [of "''ralph_0001''" env_example task_example 0] s1 g by auto
  show ?thesis
    using a b c d s1 s2 g by simp
qed

subsection \<open>What check\_task and kill\_task leave alone\<close>

lemma update_keys_present:
  "map_of al k = Some v \<Longrightarrow> map fst (AList.update k v' al) = map fst al"
  by (induction al) (auto split: if_splits)

lemma check_task_effect:
  assumes "load_document w = Inr d"
  shows "\<exists>r w' d'. check_task e k w = Inr (r, w') \<and> load_document w' = Inr d'
           \<and> next_id d' = next_id d \<and> map fst (tasks d') = map fst (tasks d)
           \<and> logs w' = logs w
           \<and> (\<forall>j t. map_of (tasks d) j = Some t \<and> status t \<noteq> ''running''
                 \<longrightarrow> map_of (tasks d') j = Some t)"
proof (cases "map_of (tasks d) k")
  case None
  with assms show ?thesis by (simp add: check_task_absent)
next
  case (Some t)
  show ?thesis
  proof (cases "status t = ''running''")
    case False
    with assms Some show ?thesis by (simp add: check_task_not_running)
  next
    case True
    show ?thesis
    proof (cases "os_kill0 e (step w) (pid t)")
      case alive: True
      from check_task_alive [OF assms Some True alive] assms show ?thesis
        by simp
    next
      case dead: False
      from check_task_dead [OF assms Some True dead] True Some show ?thesis
        by (auto simp: Let_def update_conv' update_keys_present)
    qed
  qed
qed

lemma kill_task_effect:
  assumes "load_document w = Inr d"
  shows "\<exists>r w' d'. kill_task e k w = Inr (r, w') \<and> load_document w' = Inr d'
           \<and> next_id d' = next_id d \<and> map fst (tasks d') = map fst (tasks d)
           \<and> logs w' = logs w
           \<and> (\<forall>j t. map_of (tasks d) j = Some t \<and> status t \<noteq> ''running''
                 \<longrightarrow> map_of (tasks d') j = Some t)"
proof (cases "map_of (tasks d) k")
  case None
  with assms show ?thesis by (auto simp: kill_task_def)
next
  case (Some t)
  show ?thesis
  proof (cases "status t = ''running''")
    case False
    with assms Some show ?thesis by (auto simp: kill_task_def)
  next
    case True
    show ?thesis
    proof (cases "os_getpgid e (step w) (pid t)")
      case None
      with assms Some True show ?thesis by (auto simp: kill_task_def Let_def)
    next
      case g: (Some g)
      show ?thesis
      proof (cases "os_killpg e (Suc (step w)) g SIGTERM")
        case False
        with assms Some True g show ?thesis by (auto simp: kill_task_def Let_def)
      next
        case sent: True
        from kill_task_success [OF assms Some True g sent] True Some show ?thesis
          by (auto simp: Let_def update_conv' update_keys_present step_force_kill)
      qed
    qed
  qed
qed

lemma apply_call_effect:
  assumes "load_document w = Inr d"
  shows "\<exists>w' d'. apply_call e c w = Inr w' \<and> load_document w' = Inr d'
           \<and> next_id d' = next_id d \<and> map fst (tasks d') = map fst (tasks d)
           \<and> logs w' = logs w
           \<and> (\<forall>j t. map_of (tasks d) j = Some t \<and> status t \<noteq> ''running''
                 \<longrightarrow> map_of (tasks d') j = Some t)"
proof (cases c)
  case (Check k)
  from check_task_effect [OF assms, of e k] show ?thesis
    unfolding Check by (elim exE conjE) simp
next
  case (Kill k)
  from kill_task_effect [OF assms, of e k] show ?thesis
    unfolding Kill by (elim exE conjE) simp
qed

lemma apply_calls_terminal:
  assumes "load_document w = Inr d" and "map_of (tasks d) tid = Some t"
    and "status t \<noteq> ''running''"
  shows "\<exists>w' d'. apply_calls e cs w = Inr w' \<and> load_document w' = Inr d'
           \<and> map_of (tasks d') tid = Some t"
  using assms
proof (induction cs arbitrary: w d)
  case Nil
  then show ?case by simp
next
  case (Cons c cs)
  from apply_call_effect [OF Cons.prems(1), of e c] Cons.prems(2,3)
  obtain w1 d1 where s: "apply_call e c w = Inr w1" "load_document w1 = Inr d1"
    "map_of (tasks d1) tid = Some t"
    by blast
  from Cons.IH [OF s(2,3) Cons.prems(3)] s(1) show ?case
    by simp
qed

text \<open>
  C5. A task whose status is \<^verbatim>\<open>completed\<close> or \<^verbatim>\<open>killed\<close>: \<open>check_task\<close> on it returns
  the record and leaves the world as it is, \<open>kill_task\<close> on it returns false and
  leaves the world as it is, and after any sequence of \<open>check_task\<close> and \<open>kill_task\<close>
  calls, on this id or on others, the store holds the same record under the id, with
  the same status, \<open>completed_at\<close> and \<open>exit_code\<close>.
\<close>

theorem terminal_task_never_changes:
  assumes "load_document w = Inr d"
    and "map_of (tasks d) tid = Some t"
    and "status t = ''completed'' \<or> status t = ''killed''"
  shows "check_task e tid w = Inr (Some t, w)
       \<and> kill_task e tid w = Inr (False, w)
       \<and> (\<exists>w' d'. apply_calls e cs w = Inr w' \<and> load_document w' = Inr d'
             \<and> map_of (tasks d') tid = Some t)"
proof -
  from assms(3) have n: "status t \<noteq> ''running''"
    by auto
  have "kill_task e tid w = Inr (False, w)"
    using assms(1,2) n by (intro kill_task_no_op) auto
  with check_task_not_running [OF assms(1,2) n] apply_calls_terminal [OF assms(1,2) n]
  show ?thesis
    by blast
qed

theorem terminal_task_never_changes_witness:
  "load_document world_example = Inr document_example
   \<and> map_of (tasks document_example) ''ralph_0002'' = Some task_done_example
   \<and> status task_done_example = ''completed''
   \<and> check_task env_stubborn ''ralph_0002'' world_example = Inr (Some task_done_example, world_example)
   \<and> kill_task env_stubborn ''ralph_0002'' world_example = Inr (False, world_example)
   \<and> (\<exists>w' d'. apply_calls env_stubborn
                  [Kill ''ralph_0002'', Check ''ralph_0001'', Kill ''ralph_0001'', Check ''ralph_0002'']
                  world_example = Inr w'
         \<and> load_document w' = Inr d'
         \<and> map_of (tasks d') ''ralph_0002'' = Some task_done_example)"
proof -
  have s: "status task_done_example = ''completed''"
    by (simp add: task_done_example_def)
  then have "status task_done_example = ''completed'' \<or> status task_done_example = ''killed''"
    by simp
  from terminal_task_never_changes
         [OF load_document_world_example map_of_document_example(2) this, of env_stubborn
           "[Kill ''ralph_0002'', Check ''ralph_0001'', Kill ''ralph_0001'', Check ''ralph_0002'']"]
    s load_document_world_example map_of_document_example(2)
  show ?thesis
    by blast
qed

subsection \<open>get\_task\_output\<close>

lemma concat_readlines [simp]: "concat (readlines s) = s"
  by (induction s) (auto split: list.splits)

lemma readlines_lines:
  "l \<in> set (readlines s) \<Longrightarrow> l \<noteq> [] \<and> CHR 0x0A \<notin> set (butlast l)"
  by (induction s arbitrary: l) (auto split: list.splits if_splits)



subsection \<open>clean\_tasks\<close>

lemma map_of_filter_keys:
  "map_of (filter (\<lambda>(p, f). \<not> Q p) xs) p = (if Q p then None else map_of xs p)"
  by (induction xs) auto

lemma path_name_child: "CHR ''/'' \<notin> set n \<Longrightarrow> path_name (dir @ CHR ''/'' # n) = n"
proof -
  assume a: "CHR ''/'' \<notin> set n"
  have "takeWhile (\<lambda>c. c \<noteq> CHR ''/'') (rev n @ CHR ''/'' # rev dir) = rev n"
    using a by (subst takeWhile_tail) auto
  then show ?thesis
    by (simp add: path_name_def)
qed

lemma path_name_log_of_id:
  assumes "CHR ''/'' \<notin> set k"
  shows "path_name (''/tmp/ralph/'' @ k @ ''.log'') = k @ ''.log''"
  using path_name_child [of "k @ ''.log''" "''/tmp/ralph''"] assms
  by simp

lemma glob_log_of_id:
  assumes "CHR ''/'' \<notin> set k" and "take 6 k = ''ralph_''"
  shows "glob_ralph_log (''/tmp/ralph/'' @ k @ ''.log'')"
proof -
  have "length (take 6 k) = 6"
    unfolding assms(2) by simp
  then have "6 \<le> length k"
    by simp
  with assms(2) show ?thesis
    unfolding glob_ralph_log_def Let_def path_name_log_of_id [OF assms(1)]
    by simp
qed

lemma stem_log_of_id:
  assumes "CHR ''/'' \<notin> set k" and "k \<noteq> []"
  shows "stem (''/tmp/ralph/'' @ k @ ''.log'') = k"
  using assms(2)
  unfolding stem_def Let_def path_name_log_of_id [OF assms(1)]
  by simp

lemma clean_tasks_result:
  assumes "load_document w = Inr d"
  shows "clean_tasks keep w =
           (let kept = (if keep then filter (\<lambda>(tid, t). status t = ''running'') (tasks d) else [])
            in Inr (int (length (tasks d)) - int (length kept),
                    (save_state (d\<lparr>tasks := kept\<rparr>) w)
                      \<lparr>logs := filter (\<lambda>(p, f). \<not> (glob_ralph_log p \<and> stem p \<notin> set (map fst kept)))
                                (logs w)\<rparr>))"
  using assms by (simp add: clean_tasks_def Let_def)

lemma load_document_logs_update [simp]:
  "load_document (w\<lparr>logs := l\<rparr>) = load_document w"
  by (simp add: load_document_def load_state_def)

lemma running_keys:
  "(k \<in> set (map fst (filter (\<lambda>(tid, t). status t = ''running'') ts)))
     = (\<exists>t. (k, t) \<in> set ts \<and> status t = ''running'')"
  by force

text \<open>
  C4. With \<open>keep_running\<close> true, \<open>clean_tasks\<close> leaves in the store exactly the
  records whose status was \<^verbatim>\<open>running\<close>, in their order and with the counter as it was,
  and returns the number of records removed. Of the files that the glob
  \<^verbatim>\<open>/tmp/ralph/ralph_*.log\<close> matches it deletes those whose stem is not the id of a
  retained record and no others; every other file is as before. In terms of ids: the
  log \<^verbatim>\<open>/tmp/ralph/<id>.log\<close> of an id that starts with \<^verbatim>\<open>ralph_\<close> is kept when the id is
  retained and is gone otherwise. With \<open>keep_running\<close> false every record is
  discarded (and every file that the glob matches is deleted).
\<close>

theorem clean_tasks_keeps_running:
  assumes "load_document w = Inr d"
  shows "(\<exists>w'. clean_tasks True w
                 = Inr (int (length (filter (\<lambda>(k, t). status t \<noteq> ''running'') (tasks d))), w')
            \<and> load_document w' = Inr (d\<lparr>tasks := filter (\<lambda>(k, t). status t = ''running'') (tasks d)\<rparr>)
            \<and> (\<forall>p. map_of (logs w') p =
                     (if glob_ralph_log p
                         \<and> \<not> (\<exists>t. (stem p, t) \<in> set (tasks d) \<and> status t = ''running'')
                      then None else map_of (logs w) p))
            \<and> (\<forall>k. CHR ''/'' \<notin> set k \<and> take 6 k = ''ralph_'' \<longrightarrow>
                     map_of (logs w') (''/tmp/ralph/'' @ k @ ''.log'') =
                       (if \<exists>t. (k, t) \<in> set (tasks d) \<and> status t = ''running''
                        then map_of (logs w) (''/tmp/ralph/'' @ k @ ''.log'') else None)))
       \<and> (\<exists>w'. clean_tasks False w = Inr (int (length (tasks d)), w')
            \<and> load_document w' = Inr (d\<lparr>tasks := []\<rparr>)
            \<and> (\<forall>p. map_of (logs w') p = (if glob_ralph_log p then None else map_of (logs w) p)))"
proof (rule conjI)
  let ?kept = "filter (\<lambda>(k, t). status t = ''running'') (tasks d)"
  define w' where
    "w' = (save_state (d\<lparr>tasks := ?kept\<rparr>) w)
            \<lparr>logs := filter (\<lambda>(p, f). \<not> (glob_ralph_log p \<and> stem p \<notin> set (map fst ?kept)))
                      (logs w)\<rparr>"
  have n: "int (length (tasks d)) - int (length ?kept)
             = int (length (filter (\<lambda>(k, t). status t \<noteq> ''running'') (tasks d)))"
    unfolding case_prod_beta
    using sum_length_filter_compl [of "\<lambda>x. status (snd x) = ''running''" "tasks d"]
    by simp
  have c: "clean_tasks True w
             = Inr (int (length (filter (\<lambda>(k, t). status t \<noteq> ''running'') (tasks d))), w')"
    unfolding clean_tasks_result [OF assms] Let_def w'_def n [symmetric] by simp
  have l: "load_document w' = Inr (d\<lparr>tasks := ?kept\<rparr>)"
    by (simp add: w'_def)
  have "logs w' = filter (\<lambda>(p, f). \<not> (glob_ralph_log p \<and> stem p \<notin> set (map fst ?kept))) (logs w)"
    by (simp add: w'_def)
  then have m: "map_of (logs w') p =
                  (if glob_ralph_log p
                      \<and> \<not> (\<exists>t. (stem p, t) \<in> set (tasks d) \<and> status t = ''running'')
                   then None else map_of (logs w) p)" for p
    by (simp only: map_of_filter_keys running_keys)
  have i: "map_of (logs w') (''/tmp/ralph/'' @ k @ ''.log'') =
             (if \<exists>t. (k, t) \<in> set (tasks d) \<and> status t = ''running''
              then map_of (logs w) (''/tmp/ralph/'' @ k @ ''.log'') else None)"
    if "CHR ''/'' \<notin> set k \<and> take 6 k = ''ralph_''" for k
  proof -
    from that have k: "CHR ''/'' \<notin> set k" "take 6 k = ''ralph_''" "k \<noteq> []"
      by auto
    show ?thesis
      unfolding m [of "''/tmp/ralph/'' @ k @ ''.log''"]
        stem_log_of_id [OF k(1,3)] eqTrueI [OF glob_log_of_id [OF k(1,2)]]
      by (simp only: simp_thms split: if_splits) blast
  qed
  from c l m i
  show "\<exists>w'. clean_tasks True w
                 = Inr (int (length (filter (\<lambda>(k, t). status t \<noteq> ''running'') (tasks d))), w')
            \<and> load_document w' = Inr (d\<lparr>tasks := ?kept\<rparr>)
            \<and> (\<forall>p. map_of (logs w') p =
                     (if glob_ralph_log p
                         \<and> \<not> (\<exists>t. (stem p, t) \<in> set (tasks d) \<and> status t = ''running'')
                      then None else map_of (logs w) p))
            \<and> (\<forall>k. CHR ''/'' \<notin> set k \<and> take 6 k = ''ralph_'' \<longrightarrow>
                     map_of (logs w') (''/tmp/ralph/'' @ k @ ''.log'') =
                       (if \<exists>t. (k, t) \<in> set (tasks d) \<and> status t = ''running''
                        then map_of (logs w) (''/tmp/ralph/'' @ k @ ''.log'') else None))"
    by blast
next
  show "\<exists>w'. clean_tasks False w = Inr (int (length (tasks d)), w')
            \<and> load_document w' = Inr (d\<lparr>tasks := []\<rparr>)
            \<and> (\<forall>p. map_of (logs w') p = (if glob_ralph_log p then None else map_of (logs w) p))"
    unfolding clean_tasks_result [OF assms] Let_def
    by (simp add: map_of_filter_keys)
qed

theorem clean_tasks_keeps_running_witness:
  "load_document world_example = Inr document_example
   \<and> (\<exists>w'. clean_tasks True world_example = Inr (2, w')
         \<and> load_document w' = Inr (document_example\<lparr>tasks := [(''ralph_0001'', task_example)]\<rparr>)
         \<and> map_of (logs w') ''/tmp/ralph/ralph_0001.log''
             = map_of (logs world_example) ''/tmp/ralph/ralph_0001.log''
         \<and> map_of (logs world_example) ''/tmp/ralph/ralph_0002.log''
             = Some (IOFailure ''[Errno 13] Permission denied'')
         \<and> map_of (logs w') ''/tmp/ralph/ralph_0002.log'' = None
         \<and> map_of (logs w') ''/tmp/ralph/ralph_0007.log'' = None
         \<and> map_of (logs w') ''/tmp/ralph/notes.txt'' = Some (Text ''kept''))"
proof -
  from clean_tasks_keeps_running [OF load_document_world_example]
  obtain w' where
    c: "clean_tasks True world_example
          = Inr (int (length (filter (\<lambda>(k, t). status t \<noteq> ''running'') (tasks document_example))), w')"
    and l: "load_document w'
          = Inr (document_example\<lparr>tasks := filter (\<lambda>(k, t). status t = ''running'') (tasks document_example)\<rparr>)"
    and m: "\<And>p. map_of (logs w') p =
              (if glob_ralph_log p
                  \<and> \<not> (\<exists>t. (stem p, t) \<in> set (tasks document_example) \<and> status t = ''running'')
               then None else map_of (logs world_example) p)"
    by blast
  have t: "tasks document_example =
             [(''ralph_0001'', task_example), (''ralph_0002'', task_done_example),
              (''ralph_0003'', task_killed_example)]"
    by (simp add: document_example_def)
  have s: "status task_example = ''running''" "status task_done_example \<noteq> ''running''"
    "status task_killed_example \<noteq> ''running''"
    by (simp_all add: task_example_def task_done_example_def task_killed_example_def)
  have c': "clean_tasks True world_example = Inr (2, w')"
    using c by (simp add: t s)
  have l': "load_document w' = Inr (document_example\<lparr>tasks := [(''ralph_0001'', task_example)]\<rparr>)"
    using l by (simp add: t s)
  have st: "stem ''/tmp/ralph/ralph_0001.log'' = ''ralph_0001''"
    "stem ''/tmp/ralph/ralph_0002.log'' = ''ralph_0002''"
    "stem ''/tmp/ralph/ralph_0007.log'' = ''ralph_0007''"
    by (simp_all add: stem_def path_name_def)
  have g: "glob_ralph_log ''/tmp/ralph/ralph_0002.log''"
    "glob_ralph_log ''/tmp/ralph/ralph_0007.log''"
    "\<not> glob_ralph_log ''/tmp/ralph/notes.txt''"
    by (simp_all add: glob_ralph_log_def path_name_def)
  have p1: "map_of (logs w') ''/tmp/ralph/ralph_0001.log''
              = map_of (logs world_example) ''/tmp/ralph/ralph_0001.log''"
    unfolding m st t using s(1) by simp
  have p2: "map_of (logs w') ''/tmp/ralph/ralph_0002.log'' = None"
    unfolding m st t using s g by simp
  have p7: "map_of (logs w') ''/tmp/ralph/ralph_0007.log'' = None"
    unfolding m st t using s g by simp
  have pn: "map_of (logs w') ''/tmp/ralph/notes.txt'' = Some (Text ''kept'')"
    unfolding m using g(3) by (simp add: world_example_def)
  have b: "map_of (logs world_example) ''/tmp/ralph/ralph_0002.log''
             = Some (IOFailure ''[Errno 13] Permission denied'')"
    by (simp add: world_example_def)
  from c' l' p1 p2 p7 pn b load_document_world_example show ?thesis
    by blast
qed

subsection \<open>Task ids\<close>

lemma digit_val_digit_char: "d < 10 \<Longrightarrow> digit_val (digit_char d) = d"
proof -
  assume "d < 10"
  then have "d \<in> {0, 1, 2, 3, 4, 5, 6, 7, 8, 9}"
    by auto
  then show ?thesis
    by (auto simp: digit_val_def digit_char_def)
qed

lemma digit_char_not_minus: "d < 10 \<Longrightarrow> digit_char d \<noteq> CHR ''-''"
proof -
  assume "d < 10"
  then have "d \<in> {0, 1, 2, 3, 4, 5, 6, 7, 8, 9}"
    by auto
  then show ?thesis
    by (auto simp: digit_char_def)
qed

lemma nat_of_digits_snoc:
  "nat_of_digits (cs @ [c]) = 10 * nat_of_digits cs + digit_val c"
  by (simp add: nat_of_digits_def)

lemma nat_of_digits_digits_of: "nat_of_digits (digits_of n) = n"
proof (induction n rule: digits_of.induct)
  case (1 n)
  show ?case
  proof (cases "n < 10")
    case True
    then show ?thesis
      by (subst digits_of.simps) (simp add: nat_of_digits_def digit_val_digit_char)
  next
    case False
    then have "nat_of_digits (digits_of (n div 10)) = n div 10"
      by (rule "1.IH")
    with False show ?thesis
      by (subst digits_of.simps) (simp add: nat_of_digits_snoc digit_val_digit_char)
  qed
qed

lemma digits_of_not_Nil: "digits_of n \<noteq> []"
  by (subst digits_of.simps) simp

lemma hd_digits_of_not_minus: "hd (digits_of n) \<noteq> CHR ''-''"
proof (induction n rule: digits_of.induct)
  case (1 n)
  show ?case
  proof (cases "n < 10")
    case True
    then show ?thesis
      by (subst digits_of.simps) (simp add: digit_char_not_minus)
  next
    case False
    with "1.IH" digits_of_not_Nil [of "n div 10"] show ?thesis
      by (subst digits_of.simps) simp
  qed
qed

lemma nat_of_digits_zeros: "nat_of_digits (replicate k CHR ''0'' @ ds) = nat_of_digits ds"
proof -
  have "foldl (\<lambda>acc c. 10 * acc + digit_val c) 0 (replicate k CHR ''0'') = 0"
    by (induction k) (simp_all add: digit_val_def)
  then show ?thesis
    by (simp add: nat_of_digits_def)
qed

lemma numeric_component_format: "numeric_component (''ralph_'' @ format_04d n) = n"
proof (cases "n < 0")
  case True
  then show ?thesis
    by (simp add: numeric_component_def format_04d_def Let_def nat_of_digits_zeros
        nat_of_digits_digits_of)
next
  case False
  define ds where "ds = digits_of (nat \<bar>n\<bar>)"
  define x where "x = replicate (4 - length ds) CHR ''0'' @ ds"
  have "ds \<noteq> []" "hd ds \<noteq> CHR ''-''"
    by (simp_all add: ds_def digits_of_not_Nil hd_digits_of_not_minus)
  then have "x \<noteq> []" "hd x \<noteq> CHR ''-''"
    by (auto simp: x_def hd_append)
  then obtain c cs where x: "x = c # cs" "c \<noteq> CHR ''-''"
    by (cases x) auto
  have f: "format_04d n = x"
    using False by (simp add: format_04d_def Let_def x_def ds_def)
  have "nat_of_digits x = nat n"
    using False by (simp add: x_def ds_def nat_of_digits_zeros nat_of_digits_digits_of)
  with x False show ?thesis
    by (simp add: numeric_component_def f)
qed

lemma format_04d_inj: "format_04d m = format_04d n \<Longrightarrow> m = n"
  using numeric_component_format [of m] numeric_component_format [of n] by simp

lemma run_task_result:
  assumes "load_document w = Inr d"
  shows "\<exists>t w'. run_task e cmd nm tmo w = Inr (t, w')
           \<and> id_task t = ''ralph_'' @ format_04d (next_id d)
           \<and> status t = ''running'' \<and> exit_code t = None \<and> completed_at t = None
           \<and> output_file t = ''/tmp/ralph/'' @ id_task t @ ''.log''
           \<and> map_of (logs w') (output_file t) = Some (Text [])
           \<and> load_document w' =
                Inr \<lparr>tasks = AList.update (id_task t) t (tasks d), next_id = next_id d + 1\<rparr>"
  using assms
  by (simp add: run_task_def generate_task_id_def Let_def update_conv')

lemma upt_shift: "map f [0..<Suc n] = f 0 # map (\<lambda>i. f (Suc i)) [0..<n]"
  by (simp add: upt_conv_Cons map_Suc_upt [symmetric] del: upt_Suc)

lemma run_tasks_ids:
  assumes "load_document w = Inr d"
  shows "\<exists>ts w'. run_tasks e rs w = Inr (ts, w')
           \<and> map id_task ts
               = map (\<lambda>i. ''ralph_'' @ format_04d (next_id d + int i)) [0..<length rs]"
  using assms
proof (induction rs arbitrary: w d)
  case Nil
  then show ?case by simp
next
  case (Cons r rs)
  obtain cmd nm tmo where r: "r = (cmd, nm, tmo)"
    by (cases r) auto
  from run_task_result [OF Cons.prems, of e cmd nm tmo]
  obtain t w1 where t: "run_task e cmd nm tmo w = Inr (t, w1)"
    "id_task t = ''ralph_'' @ format_04d (next_id d)"
    "load_document w1 =
       Inr \<lparr>tasks = AList.update (id_task t) t (tasks d), next_id = next_id d + 1\<rparr>"
    by blast
  from Cons.IH [OF t(3)]
  obtain ts w' where ts: "run_tasks e rs w1 = Inr (ts, w')"
    "map id_task ts
       = map (\<lambda>i. ''ralph_'' @ format_04d (next_id d + 1 + int i)) [0..<length rs]"
    by auto
  have "run_tasks e (r # rs) w = Inr (t # ts, w')"
    by (simp add: r t(1) ts(1))
  moreover have "map id_task (t # ts)
      = map (\<lambda>i. ''ralph_'' @ format_04d (next_id d + int i)) [0..<length (r # rs)]"
    unfolding length_Cons upt_shift
    by (simp add: t(2) ts(2) add.assoc del: upt_Suc)
  ultimately show ?case
    by blast
qed

text \<open>
  C6. Any sequence of \<open>run_task\<close> calls, each loading the store and saving it again,
  returns tasks whose ids are \<^verbatim>\<open>ralph_\<close> followed by the counter in the format
  \<^verbatim>\<open>04d\<close>; the numbers in the ids are the successive values of the counter, so they
  increase strictly in the order of creation, and the ids are pairwise distinct. The
  calls all return when the first load returns a document.
\<close>

theorem run_task_ids_increase:
  assumes "load_document w = Inr d"
  shows "\<exists>ts w'. run_tasks e rs w = Inr (ts, w')
           \<and> map id_task ts
               = map (\<lambda>i. ''ralph_'' @ format_04d (next_id d + int i)) [0..<length rs]
           \<and> map (\<lambda>t. numeric_component (id_task t)) ts
               = map (\<lambda>i. next_id d + int i) [0..<length rs]
           \<and> sorted_wrt (<) (map (\<lambda>t. numeric_component (id_task t)) ts)
           \<and> distinct (map id_task ts)"
proof -
  from run_tasks_ids [OF assms, of e rs]
  obtain ts w' where r: "run_tasks e rs w = Inr (ts, w')"
    and i: "map id_task ts
              = map (\<lambda>i. ''ralph_'' @ format_04d (next_id d + int i)) [0..<length rs]"
    by blast
  have "map (\<lambda>t. numeric_component (id_task t)) ts = map numeric_component (map id_task ts)"
    by simp
  also have "\<dots> = map (\<lambda>i. next_id d + int i) [0..<length rs]"
    unfolding i by (simp add: numeric_component_format del: append.simps)
  finally have n: "map (\<lambda>t. numeric_component (id_task t)) ts
                     = map (\<lambda>i. next_id d + int i) [0..<length rs]" .
  have s: "sorted_wrt (<) (map (\<lambda>i. next_id d + int i) [0..<length rs])"
    by (simp add: sorted_wrt_map sorted_wrt_iff_nth_less)
  have "distinct (map (\<lambda>i. next_id d + int i) [0..<length rs])"
    by (simp add: distinct_map inj_on_def)
  moreover have "map numeric_component (map id_task ts)
                   = map (\<lambda>i. next_id d + int i) [0..<length rs]"
    using n by (simp add: o_def)
  ultimately have "distinct (map numeric_component (map id_task ts))"
    by (simp only:)
  then have "distinct (map id_task ts)"
    by (simp only: distinct_map [of numeric_component])
  with r i n s show ?thesis
    by auto
qed

theorem run_task_ids_increase_witness:
  "load_document world_not_json = Inr fresh_document
   \<and> (\<exists>ts w'. run_tasks env_example [(''pytest'', ''tests'', 300), (''make'', ''build'', 60)]
                   world_not_json = Inr (ts, w')
         \<and> map id_task ts = [''ralph_0001'', ''ralph_0002'']
         \<and> map (\<lambda>t. numeric_component (id_task t)) ts = [1, 2])"
proof -
  have l: "load_document world_not_json = Inr fresh_document"
    by (rule load_document_fresh) (simp add: world_not_json_def)
  have u: "[0..<length [(''pytest'', ''tests'', 300::int), (''make'', ''build'', 60)]] = [0, 1]"
    by (simp add: upt_conv_Cons)
  have f: "format_04d 1 = ''0001''" "format_04d 2 = ''0002''"
    by (simp_all add: format_04d_def digits_of.simps digit_char_def eval_nat_numeral)
  from run_task_ids_increase
         [OF l, of env_example "[(''pytest'', ''tests'', 300), (''make'', ''build'', 60)]"]
  obtain ts w' where
    "run_tasks env_example [(''pytest'', ''tests'', 300), (''make'', ''build'', 60)]
       world_not_json = Inr (ts, w')"
    "map id_task ts = map (\<lambda>i. ''ralph_'' @ format_04d (next_id fresh_document + int i))
                         [0..<length [(''pytest'', ''tests'', 300::int), (''make'', ''build'', 60)]]"
    "map (\<lambda>t. numeric_component (id_task t)) ts
       = map (\<lambda>i. next_id fresh_document + int i)
           [0..<length [(''pytest'', ''tests'', 300::int), (''make'', ''build'', 60)]]"
    by blast
  then have r: "run_tasks env_example [(''pytest'', ''tests'', 300), (''make'', ''build'', 60)]
       world_not_json = Inr (ts, w')
     \<and> map id_task ts = [''ralph_0001'', ''ralph_0002'']
     \<and> map (\<lambda>t. numeric_component (id_task t)) ts = [1, 2]"
    unfolding u by (simp add: fresh_document_def f)
  show ?thesis
    by (rule conjI [OF l], rule exI [of _ ts], rule exI [of _ w'], rule r)
qed

subsection \<open>list\_tasks\<close>

lemma started_at_update_same:
  "map_of al k = Some v \<Longrightarrow> started_at v' = started_at v
     \<Longrightarrow> map (\<lambda>(j, t). (j, started_at t)) (AList.update k v' al)
         = map (\<lambda>(j, t). (j, started_at t)) al"
  by (induction al) (auto split: if_splits)

lemma check_task_started_at:
  assumes "load_document w = Inr d"
  shows "\<exists>r w' d'. check_task e k w = Inr (r, w') \<and> load_document w' = Inr d'
           \<and> map (\<lambda>(j, t). (j, started_at t)) (tasks d') = map (\<lambda>(j, t). (j, started_at t)) (tasks d)"
proof (cases "map_of (tasks d) k")
  case None
  with assms show ?thesis by (simp add: check_task_absent)
next
  case (Some t)
  show ?thesis
  proof (cases "status t = ''running''")
    case False
    with assms Some show ?thesis by (simp add: check_task_not_running)
  next
    case True
    show ?thesis
    proof (cases "os_kill0 e (step w) (pid t)")
      case alive: True
      from check_task_alive [OF assms Some True alive] assms show ?thesis
        by simp
    next
      case dead: False
      from check_task_dead [OF assms Some True dead] Some show ?thesis
        by (simp add: Let_def started_at_update_same)
    qed
  qed
qed

lemma probe_running_effect:
  assumes "load_document w = Inr d"
  shows "\<exists>w1 d1. probe_running e ts w = Inr w1 \<and> load_document w1 = Inr d1
           \<and> map (\<lambda>(j, t). (j, started_at t)) (tasks d1) = map (\<lambda>(j, t). (j, started_at t)) (tasks d)"
  using assms
proof (induction ts arbitrary: w d)
  case Nil
  then show ?case by simp
next
  case (Cons t ts)
  show ?case
  proof (cases "status t = ''running''")
    case False
    with Cons.IH [OF Cons.prems] show ?thesis
      by simp
  next
    case True
    from check_task_started_at [OF Cons.prems, of e "id_task t"]
    obtain r w' d' where c: "check_task e (id_task t) w = Inr (r, w')" "load_document w' = Inr d'"
      "map (\<lambda>(j, t). (j, started_at t)) (tasks d') = map (\<lambda>(j, t). (j, started_at t)) (tasks d)"
      by blast
    from Cons.IH [OF c(2)] c(1,3) True show ?thesis
      by auto
  qed
qed

lemma recent_or_running_eq:
  "recent_or_running e cutoff ts =
     (if \<forall>t \<in> set ts. status t = ''running'' \<or> fromisoformat e (started_at t) \<noteq> None
      then Inr (filter (\<lambda>t. status t = ''running''
                          \<or> (\<exists>s. fromisoformat e (started_at t) = Some s \<and> cutoff < s)) ts)
      else Inl ValueError)"
proof (induction ts)
  case Nil
  show ?case by simp
next
  case (Cons t ts)
  show ?case
  proof (cases "status t = ''running''")
    case True
    then show ?thesis
      by (simp add: Cons.IH)
  next
    case False
    show ?thesis
    proof (cases "fromisoformat e (started_at t)")
      case None
      with False show ?thesis by simp
    next
      case (Some s)
      with False show ?thesis
        by (simp add: Cons.IH)
    qed
  qed
qed

lemma sorted_reverse_descending:
  "sorted_wrt (\<lambda>a b. started_at b \<le> started_at a) (sorted_reverse ts)"
proof -
  have "sorted (map started_at (sort_key started_at (rev ts)))"
    by (rule sorted_sort_key)
  then have "sorted_wrt (\<lambda>a b. started_at a \<le> started_at b) (sort_key started_at (rev ts))"
    by (simp add: sorted_map)
  then show ?thesis
    by (simp add: sorted_reverse_def sorted_wrt_rev)
qed

lemma mset_sorted_reverse: "mset (sorted_reverse ts) = mset ts"
  by (simp add: sorted_reverse_def)

lemma sorted_reverse_stable:
  "filter (\<lambda>t. started_at t = k) (sorted_reverse ts) = filter (\<lambda>t. started_at t = k) ts"
  by (simp add: sorted_reverse_def rev_filter [symmetric] sort_key_stable)

lemma started_at_values:
  assumes "map (\<lambda>(j, t). (j, started_at t)) xs = map (\<lambda>(j, t). (j, started_at t)) ys"
  shows "map fst xs = map fst ys" and "started_at ` snd ` set xs = started_at ` snd ` set ys"
proof -
  from assms have "map fst (map (\<lambda>(j, t). (j, started_at t)) xs)
                     = map fst (map (\<lambda>(j, t). (j, started_at t)) ys)"
    by (rule arg_cong)
  then show "map fst xs = map fst ys"
    by (simp add: comp_def case_prod_beta)
  from assms have "map snd (map (\<lambda>(j, t). (j, started_at t)) xs)
                     = map snd (map (\<lambda>(j, t). (j, started_at t)) ys)"
    by (rule arg_cong)
  then have "map (\<lambda>x. started_at (snd x)) xs = map (\<lambda>x. started_at (snd x)) ys"
    by (simp add: comp_def case_prod_beta)
  then have "set (map (\<lambda>x. started_at (snd x)) xs) = set (map (\<lambda>x. started_at (snd x)) ys)"
    by (rule arg_cong)
  then show "started_at ` snd ` set xs = started_at ` snd ` set ys"
    by (simp add: image_image)
qed

text \<open>
  C7. \<open>list_tasks\<close> returns its tasks in descending order of \<open>started_at\<close> (the
  strings of \<^verbatim>\<open>isoformat()\<close> order as their times do), most recently started first.
  With \<open>show_all\<close> false the result holds exactly the records of the store, as it is
  after the probes, that are running or whose start lies less than 24 hours before the
  time read by the call; with \<open>show_all\<close> true it holds all of them. The store keeps the
  same ids in the same order, so every task left out of the result is still stored. The
  call returns whenever \<open>show_all\<close> is true or every stored \<open>started_at\<close> can be parsed.
\<close>

theorem list_tasks_recent_first:
  assumes "load_document w = Inr d"
  shows "(show_all \<or> (\<forall>t \<in> snd ` set (tasks d). fromisoformat e (started_at t) \<noteq> None)
            \<longrightarrow> (\<exists>ts w'. list_tasks e show_all w = Inr (ts, w')))
       \<and> (\<forall>ts w'. list_tasks e show_all w = Inr (ts, w') \<longrightarrow>
            (\<exists>d'. load_document w' = Inr d'
               \<and> map fst (tasks d') = map fst (tasks d)
               \<and> sorted_wrt (\<lambda>a b. started_at b \<le> started_at a) ts
               \<and> mset ts =
                   mset (filter (\<lambda>t. show_all \<or> status t = ''running''
                                   \<or> (\<exists>s. fromisoformat e (started_at t) = Some s
                                          \<and> clock e (step w' - 1) - 86400000000 < s))
                          (map snd (tasks d')))))"
proof -
  from probe_running_effect [OF assms, of e "map snd (tasks d)"]
  obtain w1 d1 where p: "probe_running e (map snd (tasks d)) w = Inr w1"
    and l1: "load_document w1 = Inr d1"
    and m: "map (\<lambda>(j, t). (j, started_at t)) (tasks d1) = map (\<lambda>(j, t). (j, started_at t)) (tasks d)"
    by blast
  note k = started_at_values [OF m]
  let ?cut = "clock e (step w1) - 86400000000"
  have lt: "list_tasks e show_all w =
              (if \<not> show_all
               then (case recent_or_running e ?cut (map snd (tasks d1)) of
                       Inl x \<Rightarrow> Inl x
                     | Inr ts \<Rightarrow> Inr (sorted_reverse ts, record_event Now w1))
               else Inr (sorted_reverse (map snd (tasks d1)), w1))"
    by (simp add: list_tasks_def assms p l1 Let_def)
  have total: "\<exists>ts w'. list_tasks e show_all w = Inr (ts, w')"
    if "show_all \<or> (\<forall>t \<in> snd ` set (tasks d). fromisoformat e (started_at t) \<noteq> None)"
  proof (cases show_all)
    case True
    then show ?thesis unfolding lt by simp
  next
    case False
    with that have "\<forall>x \<in> started_at ` snd ` set (tasks d). fromisoformat e x \<noteq> None"
      by auto
    then have "\<forall>t \<in> set (map snd (tasks d1)). fromisoformat e (started_at t) \<noteq> None"
      unfolding k(2) [symmetric] by auto
    then have "recent_or_running e ?cut (map snd (tasks d1)) =
                 Inr (filter (\<lambda>t. status t = ''running''
                                 \<or> (\<exists>s. fromisoformat e (started_at t) = Some s \<and> ?cut < s))
                        (map snd (tasks d1)))"
      unfolding recent_or_running_eq by simp
    with False show ?thesis
      unfolding lt by simp
  qed
  have partial: "\<exists>d'. load_document w' = Inr d'
               \<and> map fst (tasks d') = map fst (tasks d)
               \<and> sorted_wrt (\<lambda>a b. started_at b \<le> started_at a) ts
               \<and> mset ts =
                   mset (filter (\<lambda>t. show_all \<or> status t = ''running''
                                   \<or> (\<exists>s. fromisoformat e (started_at t) = Some s
                                          \<and> clock e (step w' - 1) - 86400000000 < s))
                          (map snd (tasks d')))"
    if r: "list_tasks e show_all w = Inr (ts, w')" for ts w'
  proof (cases show_all)
    case True
    with r have "ts = sorted_reverse (map snd (tasks d1))" "w' = w1"
      unfolding lt by simp_all
    with True l1 k(1) show ?thesis
      by (simp add: sorted_reverse_descending mset_sorted_reverse)
  next
    case False
    let ?rs = "filter (\<lambda>t. status t = ''running''
                           \<or> (\<exists>s. fromisoformat e (started_at t) = Some s \<and> ?cut < s))
                 (map snd (tasks d1))"
    from r False have "ts = sorted_reverse ?rs \<and> w' = record_event Now w1"
      unfolding lt recent_or_running_eq by (simp split: if_splits)
    with False l1 k(1) show ?thesis
      by (simp add: sorted_reverse_descending mset_sorted_reverse)
  qed
  from total partial show ?thesis
    by blast
qed

theorem list_tasks_recent_first_witness:
  "load_document world_example = Inr document_example
   \<and> map snd (tasks document_example) = [task_example, task_done_example, task_killed_example]
   \<and> fromisoformat env_example (started_at task_example) = Some 1704103200000000
   \<and> fromisoformat env_example (started_at task_done_example) = Some 1704099600000000
   \<and> fromisoformat env_example (started_at task_killed_example) = Some 1703923200000000
   \<and> (\<exists>ts w' d'. list_tasks env_example False world_example = Inr (ts, w')
         \<and> map id_task ts = [''ralph_0001'', ''ralph_0002'']
         \<and> map status ts = [''completed'', ''completed'']
         \<and> load_document w' = Inr d'
         \<and> map fst (tasks d') = [''ralph_0001'', ''ralph_0002'', ''ralph_0003'']
         \<and> sorted_wrt (\<lambda>a b. started_at b \<le> started_at a) ts)"
proof -
  note l = list_tasks_recent_first [OF load_document_world_example, of False env_example]
  have h: "\<forall>t \<in> snd ` set (tasks document_example). fromisoformat env_example (started_at t) \<noteq> None"
    by (simp add: document_example_def task_example_def task_done_example_def
        task_killed_example_def env_example_def)
  with l obtain ts w' where r: "list_tasks env_example False world_example = Inr (ts, w')"
    by blast
  with l obtain d' where d: "load_document w' = Inr d'"
    "map fst (tasks d') = map fst (tasks document_example)"
    "sorted_wrt (\<lambda>a b. started_at b \<le> started_at a) ts"
    by blast
  have "\<exists>w0. list_tasks env_example False world_example
          = Inr ([task_example\<lparr>status := ''completed'',
                               completed_at := Some ''2024-01-01T10:00:00'',
                               exit_code := Some 0\<rparr>, task_done_example], w0)"
    by (simp add: list_tasks_def check_task_def Let_def document_example_def task_example_def
        task_done_example_def task_killed_example_def env_example_def sorted_reverse_def)
  with r have "map id_task ts = [''ralph_0001'', ''ralph_0002'']"
    "map status ts = [''completed'', ''completed'']"
    by (auto simp: task_example_def task_done_example_def)
  moreover have "map fst (tasks document_example) = [''ralph_0001'', ''ralph_0002'', ''ralph_0003'']"
    by (simp add: document_example_def)
  moreover have "map snd (tasks document_example)
                   = [task_example, task_done_example, task_killed_example]"
    "fromisoformat env_example (started_at task_example) = Some 1704103200000000"
    "fromisoformat env_example (started_at task_done_example) = Some 1704099600000000"
    "fromisoformat env_example (started_at task_killed_example) = Some 1703923200000000"
    by (simp_all add: document_example_def task_example_def task_done_example_def
        task_killed_example_def env_example_def)
  ultimately show ?thesis
    using r d load_document_world_example by auto
qed

end
